theory Spec2Isabelle
  imports Main "HOL-Library.Sublist"
begin

section \<open>JavaScript strings and values\<close>

text \<open>
  Strings are lists of characters; a character stands for one code unit in the range
  U+0000..U+00FF.  \<open>s.startsWith(p)\<close> is \<open>prefix p s\<close>, \<open>s.substring(n)\<close> is
  \<open>drop n s\<close>.
\<close>

definition isLineTerminator :: "char \<Rightarrow> bool" where
  "isLineTerminator c = (c = CHR 0x0A \<or> c = CHR 0x0D)"

text \<open>The regular-expression atom \<open>.\<close> (without the \<open>s\<close> flag).\<close>

definition dot :: "char \<Rightarrow> bool" where
  "dot c = (\<not> isLineTerminator c)"

text \<open>The class \<open>\s\<close>, which is also what \<open>trim\<close> strips: white space and line terminators.\<close>

definition isWhiteSpace :: "char \<Rightarrow> bool" where
  "isWhiteSpace c = (c = CHR 0x09 \<or> c = CHR 0x0A \<or> c = CHR 0x0B \<or> c = CHR 0x0C \<or>
                     c = CHR 0x0D \<or> c = CHR 0x20 \<or> c = CHR 0xA0)"

text \<open>The class \<open>\d\<close>.\<close>

definition isDigit :: "char \<Rightarrow> bool" where
  "isDigit c = (48 \<le> (of_char c :: nat) \<and> (of_char c :: nat) \<le> 57)"

text \<open>The class \<open>[0-9a-f]\<close>.\<close>

definition isHexLower :: "char \<Rightarrow> bool" where
  "isHexLower c = (isDigit c \<or> (97 \<le> (of_char c :: nat) \<and> (of_char c :: nat) \<le> 102))"

definition trim :: "string \<Rightarrow> string" where
  "trim s = rev (dropWhile isWhiteSpace (rev (dropWhile isWhiteSpace s)))"

text \<open>\<open>s.split(sep)\<close> for a one-character separator: never the empty array.\<close>

fun split :: "char \<Rightarrow> string \<Rightarrow> string list" where
  "split sep [] = [[]]"
| "split sep (c # cs) =
     (if c = sep then [] # split sep cs
      else (case split sep cs of
              [] \<Rightarrow> [[c]]
            | l # ls \<Rightarrow> (c # l) # ls))"

text \<open>\<open>xs.join(sep)\<close>.\<close>

fun join :: "string \<Rightarrow> string list \<Rightarrow> string" where
  "join sep [] = []"
| "join sep [x] = x"
| "join sep (x # y # ys) = x @ sep @ join sep (y # ys)"

text \<open>
  \<open>parseInt\<close> on a string of decimal digits, as the hunk-header pattern captures them.
  A JavaScript number holds every whole number up to \<open>2 ^ 53\<close> exactly, and there
  \<open>parseInt\<close> returns the decimal value of the digits.  Above, it returns the double
  nearest to that value, which is not computed here: the model keeps the digits.
\<close>

datatype js_integer = Exact int | Nearest string

definition decimal :: "string \<Rightarrow> int" where
  "decimal ds = foldl (\<lambda>n c. 10 * n + ((of_char c :: int) - 48)) 0 ds"

definition parseInt :: "string \<Rightarrow> js_integer" where
  "parseInt ds = (if decimal ds \<le> 9007199254740992 then Exact (decimal ds) else Nearest ds)"

text \<open>
  The argument of \<open>parse\<close> and \<open>isValidPatch\<close> is any JavaScript value.  The code only
  observes whether it is truthy and whether \<open>typeof\<close> says \<open>'string'\<close>, so a value that is
  neither a string nor \<open>null\<close>/\<open>undefined\<close> carries its truthiness and nothing else.
\<close>

datatype js_value = JSUndefined | JSNull | JSOther bool | JSString string

fun truthy :: "js_value \<Rightarrow> bool" where
  "truthy JSUndefined = False"
| "truthy JSNull = False"
| "truthy (JSOther b) = b"
| "truthy (JSString s) = (s \<noteq> [])"

fun typeof_is_string :: "js_value \<Rightarrow> bool" where
  "typeof_is_string (JSString s) = True"
| "typeof_is_string v = False"

section \<open>The regular expressions of the parser\<close>

subsection \<open>\<open>/diff --git a\/(.+?) b\/(.+)/\<close>\<close>

text \<open>
  \<open>diff_paths acc s\<close> matches \<open>(.+?) b\/(.+)\<close> at the start of \<open>s\<close>, \<open>acc\<close> being what
  the lazy group has taken so far: the group takes one more character, then the rest of the
  pattern is tried, and only if it fails the group grows.  The last group is greedy.
\<close>

fun diff_paths :: "string \<Rightarrow> string \<Rightarrow> (string \<times> string) option" where
  "diff_paths acc [] = None"
| "diff_paths acc (c # cs) =
     (if \<not> dot c then None
      else if prefix '' b/'' cs \<and> takeWhile dot (drop 3 cs) \<noteq> []
      then Some (acc @ [c], takeWhile dot (drop 3 cs))
      else diff_paths (acc @ [c]) cs)"

definition diff_header_at :: "string \<Rightarrow> (string \<times> string) option" where
  "diff_header_at s =
     (if prefix ''diff --git a/'' s then diff_paths [] (drop 13 s) else None)"

text \<open>The pattern is not anchored: the leftmost position where it matches wins.\<close>

fun match_diff_header :: "string \<Rightarrow> (string \<times> string) option" where
  "match_diff_header [] = None"
| "match_diff_header (c # cs) =
     (case diff_header_at (c # cs) of
        Some r \<Rightarrow> Some r
      | None \<Rightarrow> match_diff_header cs)"

subsection \<open>\<open>/@@ -(\d+),?(\d*) \+(\d+),?(\d*) @@(.*)/\<close>\<close>

text \<open>
  \<open>range_at s\<close> matches \<open>(\d+),?(\d*)\<close> at the start of \<open>s\<close> and returns the two groups
  and the rest.  Every quantifier is greedy, and what follows in the pattern is a space:
  giving back a digit or the comma leaves a digit or a comma where the space must be, or
  ends at the same place, so the greedy reading is the only one to try.
\<close>

definition range_at :: "string \<Rightarrow> (string \<times> string \<times> string) option" where
  "range_at s =
     (let d1 = takeWhile isDigit s;
          r1 = dropWhile isDigit s;
          r2 = (case r1 of [] \<Rightarrow> r1 | c # cs \<Rightarrow> if c = CHR '','' then cs else r1)
      in if d1 = [] then None
         else Some (d1, takeWhile isDigit r2, dropWhile isDigit r2))"

definition hunk_header_at ::
  "string \<Rightarrow> (string \<times> string \<times> string \<times> string \<times> string) option" where
  "hunk_header_at s =
     (if prefix ''@@ -'' s then
        (case range_at (drop 4 s) of
           None \<Rightarrow> None
         | Some (a, b, r) \<Rightarrow>
             if prefix '' +'' r then
               (case range_at (drop 2 r) of
                  None \<Rightarrow> None
                | Some (c, d, r') \<Rightarrow>
                    if prefix '' @@'' r'
                    then Some (a, b, c, d, takeWhile dot (drop 3 r'))
                    else None)
             else None)
      else None)"

fun match_hunk_header ::
  "string \<Rightarrow> (string \<times> string \<times> string \<times> string \<times> string) option" where
  "match_hunk_header [] = None"
| "match_hunk_header (c # cs) =
     (case hunk_header_at (c # cs) of
        Some r \<Rightarrow> Some r
      | None \<Rightarrow> match_hunk_header cs)"

subsection \<open>\<open>/^Binary files .* differ/\<close>\<close>

text \<open>\<open>dotstar_then lit s\<close>: the pattern \<open>.*lit\<close> matches at the start of \<open>s\<close>.\<close>

fun dotstar_then :: "string \<Rightarrow> string \<Rightarrow> bool" where
  "dotstar_then lit [] = prefix lit []"
| "dotstar_then lit (c # cs) = (prefix lit (c # cs) \<or> (dot c \<and> dotstar_then lit cs))"

definition match_binary :: "string \<Rightarrow> bool" where
  "match_binary s = (prefix ''Binary files '' s \<and> dotstar_then '' differ'' (drop 13 s))"

section \<open>The document model\<close>

record stats =
  filesChanged :: nat
  additions :: nat
  deletions :: nat

datatype line_type = Add | Del | Context

record hunk_line =
  type :: line_type
  content :: string

record hunk =
  oldStart :: js_integer
  oldLines :: js_integer
  newStart :: js_integer
  newLines :: js_integer
  heading :: string
  lines :: "hunk_line list"

datatype file_type = Modified | Added | Deleted | Renamed

text \<open>
  A file object.  While the parser runs, \<open>hunks\<close> holds references to hunk objects
  (\<open>'h = nat\<close>); in the result it holds the hunks themselves (\<open>'h = hunk\<close>).
\<close>

record 'h file_diff =
  oldPath :: string
  newPath :: string
  type :: file_type
  hunks :: "'h list"
  additions :: nat
  deletions :: nat
  isBinary :: bool

section \<open>parseFiles\<close>

text \<open>
  The loop of \<open>parseFiles\<close> mutates the objects \<open>currentFile\<close> and \<open>currentHunk\<close> after
  they may already have been pushed to \<open>files\<close> and to \<open>currentFile.hunks\<close>, and it can
  push the same object twice.  So objects live in two stores, a reference is an index into
  its store, and \<open>files\<close> and \<open>hunks\<close> hold references.
\<close>

record parser_state =
  fileStore :: "nat file_diff list"
  hunkStore :: "hunk list"
  files :: "nat list"
  currentFile :: "nat option"
  currentHunk :: "nat option"

definition init_state :: parser_state where
  "init_state = \<lparr>fileStore = [], hunkStore = [], files = [], currentFile = None,
                  currentHunk = None\<rparr>"

text \<open>\<open>currentFile.hunks.push(currentHunk)\<close>, for the file at \<open>f\<close> and the hunk at \<open>h\<close>.\<close>

definition push_hunk :: "nat \<Rightarrow> nat \<Rightarrow> parser_state \<Rightarrow> parser_state" where
  "push_hunk f h s =
     s\<lparr>fileStore := (fileStore s)[f := (fileStore s ! f)\<lparr>hunks := hunks (fileStore s ! f) @ [h]\<rparr>]\<rparr>"

text \<open>An update of the fields of the file object at \<open>f\<close>.\<close>

definition update_file ::
  "nat \<Rightarrow> (nat file_diff \<Rightarrow> nat file_diff) \<Rightarrow> parser_state \<Rightarrow> parser_state" where
  "update_file f g s = s\<lparr>fileStore := (fileStore s)[f := g (fileStore s ! f)]\<rparr>"

text \<open>\<open>currentHunk.lines.push(l)\<close>, for the hunk at \<open>h\<close>.\<close>

definition push_line :: "nat \<Rightarrow> hunk_line \<Rightarrow> parser_state \<Rightarrow> parser_state" where
  "push_line h l s =
     s\<lparr>hunkStore := (hunkStore s)[h := (hunkStore s ! h)\<lparr>lines := lines (hunkStore s ! h) @ [l]\<rparr>]\<rparr>"

text \<open>The file header \<open>diff --git\<close>: save the previous file, start a new one.\<close>

definition save_previous_file :: "parser_state \<Rightarrow> parser_state" where
  "save_previous_file s =
     (case currentFile s of
        None \<Rightarrow> s
      | Some f \<Rightarrow>
          let s1 = (case currentHunk s of
                      None \<Rightarrow> s
                    | Some h \<Rightarrow> (push_hunk f h s)\<lparr>currentHunk := None\<rparr>)
          in s1\<lparr>parser_state.files := parser_state.files s1 @ [f]\<rparr>)"

definition on_file_header :: "string \<Rightarrow> parser_state \<Rightarrow> parser_state" where
  "on_file_header line s =
     (if prefix ''diff --git '' line then
        let s1 = save_previous_file s
        in (case match_diff_header line of
              None \<Rightarrow> s1
            | Some (a, b) \<Rightarrow>
                s1\<lparr>fileStore := fileStore s1 @
                      [\<lparr>oldPath = a, newPath = b, type = Modified, hunks = [],
                        additions = 0, deletions = 0, isBinary = False\<rparr>],
                    currentFile := Some (length (fileStore s1))\<rparr>)
      else s)"

definition on_new_file_mode :: "string \<Rightarrow> parser_state \<Rightarrow> parser_state" where
  "on_new_file_mode line s =
     (case currentFile s of
        Some f \<Rightarrow>
          if prefix ''new file mode'' line
          then update_file f (\<lambda>x. x\<lparr>file_diff.type := Added, oldPath := ''/dev/null''\<rparr>) s
          else s
      | None \<Rightarrow> s)"

definition on_deleted_file_mode :: "string \<Rightarrow> parser_state \<Rightarrow> parser_state" where
  "on_deleted_file_mode line s =
     (case currentFile s of
        Some f \<Rightarrow>
          if prefix ''deleted file mode'' line
          then update_file f (\<lambda>x. x\<lparr>file_diff.type := Deleted, newPath := ''/dev/null''\<rparr>) s
          else s
      | None \<Rightarrow> s)"

definition on_rename_from :: "string \<Rightarrow> parser_state \<Rightarrow> parser_state" where
  "on_rename_from line s =
     (case currentFile s of
        Some f \<Rightarrow>
          if prefix ''rename from'' line
          then update_file f (\<lambda>x. x\<lparr>file_diff.type := Renamed\<rparr>) s
          else s
      | None \<Rightarrow> s)"

definition on_binary :: "string \<Rightarrow> parser_state \<Rightarrow> parser_state" where
  "on_binary line s =
     (case currentFile s of
        Some f \<Rightarrow>
          if match_binary line
          then update_file f (\<lambda>x. x\<lparr>isBinary := True\<rparr>) s
          else s
      | None \<Rightarrow> s)"

text \<open>
  The hunk header: the previous hunk is pushed to the current file, and \<open>currentHunk\<close> is
  assigned only when the pattern matches; it is not reset when the pattern fails.
\<close>

definition on_hunk_header :: "string \<Rightarrow> parser_state \<Rightarrow> parser_state" where
  "on_hunk_header line s =
     (case currentFile s of
        Some f \<Rightarrow>
          if prefix ''@@'' line then
            let s1 = (case currentHunk s of
                        None \<Rightarrow> s
                      | Some h \<Rightarrow> push_hunk f h s)
            in (case match_hunk_header line of
                  None \<Rightarrow> s1
                | Some (a, b, c, d, e) \<Rightarrow>
                    s1\<lparr>hunkStore := hunkStore s1 @
                          [\<lparr>oldStart = parseInt a,
                            oldLines = (if b \<noteq> [] then parseInt b else Exact 1),
                            newStart = parseInt c,
                            newLines = (if d \<noteq> [] then parseInt d else Exact 1),
                            heading = trim e,
                            lines = []\<rparr>],
                        currentHunk := Some (length (hunkStore s1))\<rparr>)
          else s
      | None \<Rightarrow> s)"

text \<open>The content lines of a hunk.\<close>

definition on_content :: "string \<Rightarrow> parser_state \<Rightarrow> parser_state" where
  "on_content line s =
     (case currentHunk s of
        None \<Rightarrow> s
      | Some h \<Rightarrow>
         (case currentFile s of
            None \<Rightarrow> s
          | Some f \<Rightarrow>
              if \<not> isBinary (fileStore s ! f) then
                if prefix ''+'' line \<and> \<not> prefix ''+++'' line then
                  update_file f (\<lambda>x. x\<lparr>file_diff.additions := file_diff.additions x + 1\<rparr>)
                    (push_line h \<lparr>hunk_line.type = Add, content = drop 1 line\<rparr> s)
                else if prefix ''-'' line \<and> \<not> prefix ''---'' line then
                  update_file f (\<lambda>x. x\<lparr>file_diff.deletions := file_diff.deletions x + 1\<rparr>)
                    (push_line h \<lparr>hunk_line.type = Del, content = drop 1 line\<rparr> s)
                else if prefix '' '' line \<and> length (lines (hunkStore s ! h)) > 0 then
                  push_line h \<lparr>hunk_line.type = Context, content = drop 1 line\<rparr> s
                else s
              else s))"

text \<open>One turn of the loop: the tests of the body, in the order of the source.\<close>

definition step :: "string \<Rightarrow> parser_state \<Rightarrow> parser_state" where
  "step line s =
     on_content line
       (on_hunk_header line
         (on_binary line
           (on_rename_from line
             (on_deleted_file_mode line
               (on_new_file_mode line
                 (on_file_header line s))))))"

text \<open>After the loop: save the last file.\<close>

definition save_last_file :: "parser_state \<Rightarrow> parser_state" where
  "save_last_file s =
     (case currentFile s of
        None \<Rightarrow> s
      | Some f \<Rightarrow>
          let s1 = (case currentHunk s of
                      None \<Rightarrow> s
                    | Some h \<Rightarrow> push_hunk f h s)
          in s1\<lparr>parser_state.files := parser_state.files s1 @ [f]\<rparr>)"

text \<open>What the caller reads through a file reference once the parser has returned.\<close>

definition read_file :: "parser_state \<Rightarrow> nat \<Rightarrow> hunk file_diff" where
  "read_file s f =
     (let x = fileStore s ! f
      in \<lparr>oldPath = oldPath x, newPath = newPath x, type = file_diff.type x,
          hunks = map (\<lambda>h. hunkStore s ! h) (hunks x),
          additions = file_diff.additions x, deletions = file_diff.deletions x,
          isBinary = isBinary x\<rparr>)"

definition parseFiles :: "string list \<Rightarrow> hunk file_diff list" where
  "parseFiles ls =
     (let s = save_last_file (fold step ls init_state)
      in map (read_file s) (parser_state.files s))"

section \<open>extractMetadata\<close>

record metadata =
  commitHash :: "string option"
  author :: "string option"
  authorEmail :: "string option"
  date :: "string option"
  message :: string
  refs :: "string list"

text \<open>\<open>/^From ([0-9a-f]{40})/\<close>: the group, when the pattern matches.\<close>

definition match_commit_hash :: "string \<Rightarrow> string option" where
  "match_commit_hash s =
     (let h = take 40 (drop 5 s)
      in if prefix ''From '' s \<and> length h = 40 \<and> list_all isHexLower h then Some h else None)"

text \<open>
  \<open>/^From: (.+?) <(.+?)>/\<close>.  \<open>email_rest acc s\<close> continues the second lazy group, which
  has taken \<open>acc\<close> (at least one character), up to the first \<open>>\<close>; \<open>author_name acc s\<close>
  grows the first lazy group until the rest of the pattern matches.
\<close>

fun email_rest :: "string \<Rightarrow> string \<Rightarrow> string option" where
  "email_rest acc [] = None"
| "email_rest acc (c # cs) =
     (if c = CHR ''>'' then Some acc
      else if dot c then email_rest (acc @ [c]) cs
      else None)"

definition email_at :: "string \<Rightarrow> string option" where
  "email_at s = (case s of [] \<Rightarrow> None | c # cs \<Rightarrow> if dot c then email_rest [c] cs else None)"

fun author_name :: "string \<Rightarrow> string \<Rightarrow> (string \<times> string) option" where
  "author_name acc [] = None"
| "author_name acc (c # cs) =
     (if \<not> dot c then None
      else if prefix '' <'' cs then
        (case email_at (drop 2 cs) of
           Some e \<Rightarrow> Some (acc @ [c], e)
         | None \<Rightarrow> author_name (acc @ [c]) cs)
      else author_name (acc @ [c]) cs)"

definition match_author :: "string \<Rightarrow> (string \<times> string) option" where
  "match_author s = (if prefix ''From: '' s then author_name [] (drop 6 s) else None)"

text \<open>\<open>/^\s*\(.*\)$/\<close>: white space, then a parenthesis that closes at the very end.\<close>

definition match_refs_line :: "string \<Rightarrow> bool" where
  "match_refs_line s =
     (case dropWhile isWhiteSpace s of
        [] \<Rightarrow> False
      | c # cs \<Rightarrow> c = CHR ''('' \<and> cs \<noteq> [] \<and> last cs = CHR '')'' \<and> list_all dot (butlast cs))"

text \<open>\<open>/\(([^)]+)\)/\<close>: the group of the leftmost match.\<close>

fun match_paren :: "string \<Rightarrow> string option" where
  "match_paren [] = None"
| "match_paren (c # cs) =
     (if c = CHR ''('' \<and> takeWhile (\<lambda>x. x \<noteq> CHR '')'') cs \<noteq> []
         \<and> dropWhile (\<lambda>x. x \<noteq> CHR '')'') cs \<noteq> []
      then Some (takeWhile (\<lambda>x. x \<noteq> CHR '')'') cs)
      else match_paren cs)"

text \<open>The variables of the loop: \<open>metadata\<close>, \<open>inMessage\<close> and \<open>messageLines\<close>.\<close>

record metadata_state =
  meta :: metadata
  inMessage :: bool
  messageLines :: "string list"

definition metadata_step :: "string \<Rightarrow> metadata_state \<Rightarrow> metadata_state" where
  "metadata_step line s =
     (let m1 = (if prefix ''From '' line then
                  (case match_commit_hash line of
                     Some h \<Rightarrow> (meta s)\<lparr>commitHash := Some h\<rparr>
                   | None \<Rightarrow> meta s)
                else meta s);
          m2 = (if prefix ''From: '' line then
                  (case match_author line of
                     Some (a, e) \<Rightarrow> m1\<lparr>author := Some a, authorEmail := Some e\<rparr>
                   | None \<Rightarrow> m1\<lparr>author := Some (trim (drop 6 line))\<rparr>)
                else m1);
          m3 = (if prefix ''Date: '' line then m2\<lparr>date := Some (trim (drop 6 line))\<rparr> else m2)
      in if prefix ''Subject: '' line then
           \<lparr>meta = m3, inMessage = True, messageLines = messageLines s @ [trim (drop 9 line)]\<rparr>
         else
           let s1 = (if inMessage s then
                       if trim line = [] \<or> prefix ''---'' line
                       then \<lparr>meta = m3, inMessage = False, messageLines = messageLines s\<rparr>
                       else \<lparr>meta = m3, inMessage = True,
                              messageLines = messageLines s @ [trim line]\<rparr>
                     else \<lparr>meta = m3, inMessage = False, messageLines = messageLines s\<rparr>)
           in if match_refs_line line then
                (case match_paren line of
                   Some g \<Rightarrow> s1\<lparr>meta := (meta s1)\<lparr>refs := map trim (split CHR '','' g)\<rparr>\<rparr>
                 | None \<Rightarrow> s1)
              else s1)"

definition extractMetadata :: "string list \<Rightarrow> metadata" where
  "extractMetadata ls =
     (let s = fold metadata_step (take 50 ls)
                \<lparr>meta = \<lparr>commitHash = None, author = None, authorEmail = None, date = None,
                          message = [], refs = []\<rparr>,
                  inMessage = False, messageLines = []\<rparr>
      in (meta s)\<lparr>message := trim (join '' '' (messageLines s))\<rparr>)"

section \<open>calculateStats and parse\<close>

record parsed_patch =
  metadata :: metadata
  files :: "hunk file_diff list"
  stats :: stats
  raw :: string

datatype error = InvalidInput

definition calculateStats :: "hunk file_diff list \<Rightarrow> stats" where
  "calculateStats fs =
     fold (\<lambda>f st. st\<lparr>stats.additions := stats.additions st + file_diff.additions f,
                     stats.deletions := stats.deletions st + file_diff.deletions f\<rparr>)
          fs
          \<lparr>filesChanged = length fs, stats.additions = 0, stats.deletions = 0\<rparr>"

definition parse :: "js_value \<Rightarrow> error + parsed_patch" where
  "parse patchText =
     (if \<not> truthy patchText \<or> \<not> typeof_is_string patchText then Inl InvalidInput
      else (case patchText of
              JSString text \<Rightarrow>
                let ls = split CHR 0x0A text;
                    fs = parseFiles ls
                in Inr \<lparr>metadata = extractMetadata ls, files = fs,
                        stats = calculateStats fs, raw = text\<rparr>
            | _ \<Rightarrow> Inl InvalidInput))"

section \<open>isValidPatch\<close>

text \<open>
  \<open>/^lit/m.test(s)\<close>: with the \<open>m\<close> flag, \<open>^\<close> matches at the start of the input and after
  every line terminator.  \<open>at_start\<close> says whether the position reached is such a place.
\<close>

fun test_line_start :: "string \<Rightarrow> bool \<Rightarrow> string \<Rightarrow> bool" where
  "test_line_start lit at_start [] = (at_start \<and> prefix lit [])"
| "test_line_start lit at_start (c # cs) =
     ((at_start \<and> prefix lit (c # cs)) \<or> test_line_start lit (isLineTerminator c) cs)"

definition indicators :: "string list" where
  "indicators = [''diff --git'', ''--- '', ''+++ '', ''@@ '']"

definition isValidPatch :: "js_value \<Rightarrow> bool" where
  "isValidPatch patchText =
     (if \<not> truthy patchText \<or> \<not> typeof_is_string patchText then False
      else (case patchText of
              JSString text \<Rightarrow> list_ex (\<lambda>lit. test_line_start lit True text) indicators
            | _ \<Rightarrow> False))"

section \<open>detectLanguage\<close>

text \<open>\<open>toLowerCase\<close> on the characters of the model: A-Z and the capital letters of Latin-1.\<close>

definition isUpper :: "char \<Rightarrow> bool" where
  "isUpper c = ((65 \<le> (of_char c :: nat) \<and> (of_char c :: nat) \<le> 90) \<or>
                (192 \<le> (of_char c :: nat) \<and> (of_char c :: nat) \<le> 222 \<and> (of_char c :: nat) \<noteq> 215))"

definition lower_char :: "char \<Rightarrow> char" where
  "lower_char c = (if isUpper c then char_of ((of_char c :: nat) + 32) else c)"

definition toLowerCase :: "string \<Rightarrow> string" where
  "toLowerCase s = map lower_char s"

text \<open>
  \<open>/\.([^.]+)$/\<close>: the group of the leftmost match, which is what follows the last dot,
  when that is not empty.
\<close>

fun match_extension :: "string \<Rightarrow> string option" where
  "match_extension [] = None"
| "match_extension (c # cs) =
     (if c = CHR ''.'' \<and> cs \<noteq> [] \<and> CHR ''.'' \<notin> set cs then Some cs
      else match_extension cs)"

definition getFileExtension :: "string \<Rightarrow> string" where
  "getFileExtension filePath = (case match_extension filePath of Some e \<Rightarrow> e | None \<Rightarrow> [])"

definition languageMap :: "(string \<times> string) list" where
  "languageMap =
     [(''js'', ''javascript''), (''jsx'', ''jsx''), (''ts'', ''typescript''), (''tsx'', ''tsx''),
      (''py'', ''python''), (''java'', ''java''), (''go'', ''go''), (''rs'', ''rust''),
      (''c'', ''c''), (''cpp'', ''cpp''), (''cc'', ''cpp''), (''cxx'', ''cpp''), (''h'', ''c''),
      (''hpp'', ''cpp''), (''cs'', ''csharp''), (''php'', ''php''), (''rb'', ''ruby''),
      (''css'', ''css''), (''scss'', ''scss''), (''sass'', ''sass''), (''less'', ''less''),
      (''html'', ''markup''), (''xml'', ''markup''), (''svg'', ''markup''),
      (''md'', ''markdown''), (''json'', ''json''), (''yaml'', ''yaml''), (''yml'', ''yaml''),
      (''toml'', ''toml''), (''sh'', ''bash''), (''bash'', ''bash''), (''zsh'', ''bash''),
      (''sql'', ''sql''), (''dockerfile'', ''docker''), (''makefile'', ''makefile'')]"

text \<open>
  \<open>languageMap\<close> is an object literal, so \<open>languageMap[ext]\<close> also finds what every object
  inherits from \<open>Object.prototype\<close>: a function or an object, which is truthy and is then
  what \<open>detectLanguage\<close> returns.
\<close>

definition object_prototype_keys :: "string list" where
  "object_prototype_keys =
     [''constructor'', ''__proto__'', ''hasOwnProperty'', ''isPrototypeOf'',
      ''propertyIsEnumerable'', ''toLocaleString'', ''toString'', ''valueOf'',
      ''__defineGetter__'', ''__defineSetter__'', ''__lookupGetter__'', ''__lookupSetter__'']"

datatype language = Language string | Inherited string

definition languageMap_get :: "string \<Rightarrow> language option" where
  "languageMap_get ext =
     (case map_of languageMap ext of
        Some l \<Rightarrow> Some (Language l)
      | None \<Rightarrow> if ext \<in> set object_prototype_keys then Some (Inherited ext) else None)"

definition detectLanguage :: "string \<Rightarrow> language" where
  "detectLanguage filePath =
     (let ext = toLowerCase (getFileExtension filePath);
          filename = toLowerCase (last (split CHR ''/'' filePath))
      in if filename = ''dockerfile'' then Language ''docker''
         else if filename = ''makefile'' then Language ''makefile''
         else if filename = ''.gitignore'' then Language ''git''
         else (case languageMap_get ext of
                 Some l \<Rightarrow> l
               | None \<Rightarrow> Language ''plaintext''))"

section \<open>formatRelativeTime\<close>

text \<open>
  The numbers of \<open>formatRelativeTime\<close> are \<open>NaN\<close> or whole: a time value is a whole number
  of milliseconds, or \<open>NaN\<close> for an invalid date, and every later value is
  \<open>Math.floor\<close> of a quotient.  Arithmetic and comparison with \<open>NaN\<close> follow JavaScript:
  the result is \<open>NaN\<close>, every \<open><\<close> is false, \<open>NaN !== 1\<close> is true.
\<close>

datatype number = NaN | Finite int

definition minus_number :: "number \<Rightarrow> number \<Rightarrow> number" where
  "minus_number x y =
     (case x of NaN \<Rightarrow> NaN | Finite a \<Rightarrow> (case y of NaN \<Rightarrow> NaN | Finite b \<Rightarrow> Finite (a - b)))"

text \<open>\<open>Math.floor(x / k)\<close> for a positive constant \<open>k\<close>.\<close>

definition floor_div :: "number \<Rightarrow> int \<Rightarrow> number" where
  "floor_div x k = (case x of NaN \<Rightarrow> NaN | Finite a \<Rightarrow> Finite (a div k))"

definition less_number :: "number \<Rightarrow> int \<Rightarrow> bool" where
  "less_number x k = (case x of NaN \<Rightarrow> False | Finite a \<Rightarrow> a < k)"

definition not_one :: "number \<Rightarrow> bool" where
  "not_one x = (case x of NaN \<Rightarrow> True | Finite a \<Rightarrow> a \<noteq> 1)"

fun show_nat :: "nat \<Rightarrow> string" where
  "show_nat n =
     (if n < 10 then [char_of (48 + n)]
      else show_nat (n div 10) @ [char_of (48 + n mod 10)])"

definition number_to_string :: "number \<Rightarrow> string" where
  "number_to_string x =
     (case x of
        NaN \<Rightarrow> ''NaN''
      | Finite a \<Rightarrow> if a < 0 then ''-'' @ show_nat (nat (- a)) else show_nat (nat a))"

text \<open>The template \<open>`${n} unit${n !== 1 ? 's' : ''} ago`\<close>.\<close>

definition ago :: "number \<Rightarrow> string \<Rightarrow> string" where
  "ago n unit = number_to_string n @ '' '' @ unit @ (if not_one n then ''s'' else []) @ '' ago''"

text \<open>
  \<open>new Date(dateString)\<close> and \<open>new Date()\<close> are parameters: \<open>dateParse\<close> gives the time
  value of a string, \<open>None\<close> when the string is no date (the Date object is then an
  Invalid Date, whose time value is \<open>NaN\<close>; the constructor does not throw), and \<open>now\<close>
  is the clock.  Nothing in the \<open>try\<close> block throws, so its \<open>catch\<close> branch has no
  counterpart here.
\<close>

definition formatRelativeTime :: "(string \<Rightarrow> int option) \<Rightarrow> int \<Rightarrow> string \<Rightarrow> string" where
  "formatRelativeTime dateParse now dateString =
     (if dateString = [] then []
      else
        let date = (case dateParse dateString of None \<Rightarrow> NaN | Some t \<Rightarrow> Finite t);
            diffMs = minus_number (Finite now) date;
            diffSec = floor_div diffMs 1000;
            diffMin = floor_div diffSec 60;
            diffHour = floor_div diffMin 60;
            diffDay = floor_div diffHour 24;
            diffWeek = floor_div diffDay 7;
            diffMonth = floor_div diffDay 30;
            diffYear = floor_div diffDay 365
        in if less_number diffSec 60 then ''just now''
           else if less_number diffMin 60 then ago diffMin ''minute''
           else if less_number diffHour 24 then ago diffHour ''hour''
           else if less_number diffDay 7 then ago diffDay ''day''
           else if less_number diffWeek 4 then ago diffWeek ''week''
           else if less_number diffMonth 12 then ago diffMonth ''month''
           else ago diffYear ''year'')"

section \<open>Notions of the specification\<close>

text \<open>
  The lines of a text for a pattern with the \<open>m\<close> flag: what the line terminators
  separate.
\<close>

fun text_lines :: "string \<Rightarrow> string list" where
  "text_lines [] = [[]]"
| "text_lines (c # cs) =
     (if isLineTerminator c then [] # text_lines cs
      else (case text_lines cs of
              [] \<Rightarrow> [[c]]
            | l # ls \<Rightarrow> (c # l) # ls))"

text \<open>
  \<open>toUpperCase\<close> on the characters of the model.  The small letters a-z and those of
  Latin-1 have a one-letter capital; U+00DF has the two-letter capital \<open>SS\<close>; the
  capitals of U+00B5 and U+00FF are not code units of the model, and the result is
  \<open>None\<close>.
\<close>

definition upper_char :: "char \<Rightarrow> string option" where
  "upper_char c =
     (let n = (of_char c :: nat)
      in if n = 223 then Some ''SS''
         else if n = 181 \<or> n = 255 then None
         else if (97 \<le> n \<and> n \<le> 122) \<or> (224 \<le> n \<and> n \<le> 254 \<and> n \<noteq> 247)
         then Some [char_of (n - 32)]
         else Some [c])"

fun toUpperCase :: "string \<Rightarrow> string option" where
  "toUpperCase [] = Some []"
| "toUpperCase (c # cs) =
     (case upper_char c of
        None \<Rightarrow> None
      | Some u \<Rightarrow> (case toUpperCase cs of None \<Rightarrow> None | Some us \<Rightarrow> Some (u @ us)))"

text \<open>The number of lines of type \<open>t\<close> across the hunks of a file.\<close>

definition count_lines :: "line_type \<Rightarrow> hunk file_diff \<Rightarrow> nat" where
  "count_lines t f =
     sum_list (map (\<lambda>h. length (filter (\<lambda>l. hunk_line.type l = t) (lines h))) (hunks f))"

section \<open>Patches used below\<close>

text \<open>
  The minimal single-file patch of the specification's scenario; a patch of two files; a
  patch whose second
  \<open>@@\<close> line does not match the hunk-header pattern, alone and followed by a content
  line; a file section with a \<open>Binary files\<close> line between two hunks; a binary file
  section with a \<open>diff --git\<close> line that does not match the header pattern; and a
  binary file section as git writes it, with two stray lines, followed by a second file.
\<close>

definition minimal_patch :: string where
  "minimal_patch = ''diff --git a/foo.txt b/foo.txt
index 123..456 100644
--- a/foo.txt
+++ b/foo.txt
@@ -1,2 +1,2 @@
 line one
-old line
+new line''"

definition unmatched_header_patch :: string where
  "unmatched_header_patch = ''diff --git a/x b/x
@@ -1 +1 @@
+a
@@ malformed''"

definition unmatched_header_content_patch :: string where
  "unmatched_header_content_patch = ''diff --git a/x b/x
@@ -1 +1 @@
+a
@@ malformed
+b''"

definition two_file_patch :: string where
  "two_file_patch = ''diff --git a/a.txt b/a.txt
@@ -1,2 +1,3 @@
-a
+b
+c
diff --git a/b.txt b/b.txt
@@ -1 +1,2 @@
+d''"




section \<open>Invariants of the loop\<close>







text \<open>
  \<open>counts_inv\<close>: the counters of every file object are the numbers of \<open>add\<close> and
  \<open>del\<close> lines in its saved hunks, plus those of the current hunk for the current file;
  the current hunk is saved in no file yet, and every reference is allocated.
\<close>

definition type_count :: "line_type \<Rightarrow> hunk \<Rightarrow> nat" where
  "type_count t h = length (filter (\<lambda>l. hunk_line.type l = t) (lines h))"

definition saved_count :: "line_type \<Rightarrow> nat \<Rightarrow> parser_state \<Rightarrow> nat" where
  "saved_count t a s = sum_list (map (\<lambda>h. type_count t (hunkStore s ! h)) (hunks (fileStore s ! a)))"

definition open_count :: "line_type \<Rightarrow> nat \<Rightarrow> parser_state \<Rightarrow> nat" where
  "open_count t a s =
     (if currentFile s = Some a
      then (case currentHunk s of None \<Rightarrow> 0 | Some h \<Rightarrow> type_count t (hunkStore s ! h))
      else 0)"

definition counts_inv :: "parser_state \<Rightarrow> bool" where
  "counts_inv s \<longleftrightarrow>
     (currentFile s = None \<longrightarrow> currentHunk s = None) \<and>
     (\<forall>f. currentFile s = Some f \<longrightarrow> f < length (fileStore s)) \<and>
     (\<forall>h. currentHunk s = Some h \<longrightarrow>
          h < length (hunkStore s) \<and> (\<forall>a<length (fileStore s). h \<notin> set (hunks (fileStore s ! a)))) \<and>
     (\<forall>a<length (fileStore s).
          (\<forall>h\<in>set (hunks (fileStore s ! a)). h < length (hunkStore s)) \<and>
          file_diff.additions (fileStore s ! a) = saved_count Add a s + open_count Add a s \<and>
          file_diff.deletions (fileStore s ! a) = saved_count Del a s + open_count Del a s) \<and>
     (\<forall>a\<in>set (parser_state.files s). a < length (fileStore s))"

section \<open>Properties of parse\<close>

lemma fold_stats:
  "fold (\<lambda>f st. st\<lparr>stats.additions := stats.additions st + file_diff.additions f,
                     stats.deletions := stats.deletions st + file_diff.deletions f\<rparr>) fs
        \<lparr>filesChanged = n, stats.additions = a, stats.deletions = d\<rparr> =
   \<lparr>filesChanged = n, stats.additions = a + sum_list (map file_diff.additions fs),
    stats.deletions = d + sum_list (map file_diff.deletions fs)\<rparr>"
  by (induction fs arbitrary: a d) simp_all

lemma calculateStats_eq:
  "calculateStats fs =
     \<lparr>filesChanged = length fs, stats.additions = sum_list (map file_diff.additions fs),
      stats.deletions = sum_list (map file_diff.deletions fs)\<rparr>"
  by (simp add: calculateStats_def fold_stats)

lemma parse_Inr_iff:
  "parse v = Inr p \<longleftrightarrow> (\<exists>text. text \<noteq> [] \<and> v = JSString text \<and>
     p = \<lparr>metadata = extractMetadata (split CHR 0x0A text),
          files = parseFiles (split CHR 0x0A text),
          stats = calculateStats (parseFiles (split CHR 0x0A text)), raw = text\<rparr>)"
  by (cases v) (auto simp add: parse_def Let_def)

lemma parse_files:
  "parse (JSString text) = Inr p \<Longrightarrow> files p = parseFiles (split CHR 0x0A text)"
  by (auto simp add: parse_Inr_iff)

lemma parse_nonempty: "text \<noteq> [] \<Longrightarrow> \<exists>p. parse (JSString text) = Inr p"
  by (simp add: parse_Inr_iff)

text \<open>
  Claim C2.  Whenever \<open>parse\<close> accepts its input, the \<open>stats\<close> of the result are the
  aggregate of its \<open>files\<close>: \<open>filesChanged\<close> is the number of files, \<open>additions\<close> and
  \<open>deletions\<close> are the sums of the files' counters.
\<close>

theorem parse_stats_aggregate:
  assumes "parse patchText = Inr p"
  shows "filesChanged (stats p) = length (files p)
       \<and> stats.additions (stats p) = sum_list (map file_diff.additions (files p))
       \<and> stats.deletions (stats p) = sum_list (map file_diff.deletions (files p))"
  using assms by (auto simp add: parse_Inr_iff calculateStats_eq)

theorem parse_stats_aggregate_witness:
  "\<exists>p. parse (JSString two_file_patch) = Inr p
     \<and> map file_diff.additions (files p) = [2, 1]
     \<and> map file_diff.deletions (files p) = [1, 0]
     \<and> filesChanged (stats p) = 2
     \<and> stats.additions (stats p) = 3
     \<and> stats.deletions (stats p) = 1"
proof -
  have "two_file_patch \<noteq> []"
    by (simp add: two_file_patch_def)
  then obtain p where p: "parse (JSString two_file_patch) = Inr p"
    using parse_nonempty by blast
  have "map file_diff.additions (parseFiles (split CHR 0x0A two_file_patch)) = [2, 1]"
    "map file_diff.deletions (parseFiles (split CHR 0x0A two_file_patch)) = [1, 0]"
    by code_simp+
  with parse_files [OF p]
  have f: "map file_diff.additions (files p) = [2, 1]" "map file_diff.deletions (files p) = [1, 0]"
    by simp_all
  from f(1) have "length (map file_diff.additions (files p)) = 2" by simp
  then have n: "length (files p) = 2" by simp
  from parse_stats_aggregate [OF p] f n
  have "filesChanged (stats p) = 2" "stats.additions (stats p) = 3" "stats.deletions (stats p) = 1"
    by simp_all
  with p f show ?thesis
    by (intro exI [of _ p]) simp
qed

text \<open>
  Claim C7.  \<open>parse\<close> raises \<open>InvalidInput\<close> exactly when its argument is \<open>undefined\<close>,
  \<open>null\<close>, the empty string or not a string; the error is the whole result, no patch comes
  with it.  On every non-empty string \<open>parse\<close> returns a patch, whose \<open>raw\<close> is the input.
\<close>

theorem parse_invalid_input_iff:
  "(parse v = Inl InvalidInput \<longleftrightarrow>
      (v = JSUndefined \<or> v = JSNull \<or> v = JSString [] \<or> (\<exists>b. v = JSOther b)))
   \<and> (text \<noteq> [] \<longrightarrow> (\<exists>p. parse (JSString text) = Inr p \<and> raw p = text))"
  by (cases v) (auto simp add: parse_def Let_def)

theorem parse_invalid_input_iff_witness:
  "parse JSNull = Inl InvalidInput \<and> (\<exists>p. parse (JSString ''+x'') = Inr p \<and> raw p = ''+x'')"
  using parse_invalid_input_iff [of JSNull "''+x''"] by simp

subsection \<open>The minimal single-file patch\<close>

lemma parseFiles_minimal_patch:
  "parseFiles (split CHR 0x0A minimal_patch) =
     [\<lparr>oldPath = ''foo.txt'', newPath = ''foo.txt'', type = Modified,
       hunks = [\<lparr>oldStart = Exact 1, oldLines = Exact 2, newStart = Exact 1, newLines = Exact 2, heading = [],
                 lines = [\<lparr>hunk_line.type = Del, content = ''old line''\<rparr>,
                          \<lparr>hunk_line.type = Add, content = ''new line''\<rparr>]\<rparr>],
       additions = 1, deletions = 1, isBinary = False\<rparr>]"
  by code_simp

text \<open>
  Claim C3, as stated: on the minimal patch, \<open>files[0].hunks[0].lines\<close> would be the
  context line, the deletion and the addition.  It is not: a line starting with a space is
  recorded only when the hunk already holds a line, so the leading context line is skipped.
\<close>

theorem minimal_patch_counterexample:
  "\<not> (\<exists>p. parse (JSString minimal_patch) = Inr p
         \<and> length (files p) = 1
         \<and> additions (files p ! 0) = 1
         \<and> deletions (files p ! 0) = 1
         \<and> lines (hunks (files p ! 0) ! 0) =
             [\<lparr>hunk_line.type = Context, content = ''line one''\<rparr>,
              \<lparr>hunk_line.type = Del, content = ''old line''\<rparr>,
              \<lparr>hunk_line.type = Add, content = ''new line''\<rparr>])"
  by (auto dest!: parse_files simp add: parseFiles_minimal_patch)

text \<open>
  Claim C3, amended: on the minimal patch, \<open>parse\<close> returns one file with one addition
  and one deletion, and the lines of its first hunk are the deletion \<open>old line\<close> and the
  addition \<open>new line\<close>, in that order.
\<close>

theorem minimal_patch_parse:
  "\<exists>p. parse (JSString minimal_patch) = Inr p
       \<and> length (files p) = 1
       \<and> additions (files p ! 0) = 1
       \<and> deletions (files p ! 0) = 1
       \<and> lines (hunks (files p ! 0) ! 0) =
           [\<lparr>hunk_line.type = Del, content = ''old line''\<rparr>,
            \<lparr>hunk_line.type = Add, content = ''new line''\<rparr>]"
proof -
  have "minimal_patch \<noteq> []"
    by (simp add: minimal_patch_def)
  then obtain p where p: "parse (JSString minimal_patch) = Inr p"
    using parse_nonempty by blast
  from parse_files [OF p] show ?thesis
    using p by (simp add: parseFiles_minimal_patch)
qed

theorem minimal_patch_parse_witness:
  "\<exists>p. parse (JSString minimal_patch) = Inr p
       \<and> map hunk_line.type (lines (hunks (files p ! 0) ! 0)) = [Del, Add]"
  using minimal_patch_parse by auto

subsection \<open>A hunk header that does not match\<close>

lemma parseFiles_unmatched_header_patch:
  "parseFiles (split CHR 0x0A unmatched_header_patch) =
     [\<lparr>oldPath = ''x'', newPath = ''x'', type = Modified,
       hunks = [\<lparr>oldStart = Exact 1, oldLines = Exact 1, newStart = Exact 1, newLines = Exact 1, heading = [],
                 lines = [\<lparr>hunk_line.type = Add, content = ''a''\<rparr>]\<rparr>,
                \<lparr>oldStart = Exact 1, oldLines = Exact 1, newStart = Exact 1, newLines = Exact 1, heading = [],
                 lines = [\<lparr>hunk_line.type = Add, content = ''a''\<rparr>]\<rparr>],
       additions = 1, deletions = 0, isBinary = False\<rparr>]"
  by code_simp

lemma parseFiles_unmatched_header_content_patch:
  "parseFiles (split CHR 0x0A unmatched_header_content_patch) =
     [\<lparr>oldPath = ''x'', newPath = ''x'', type = Modified,
       hunks = [\<lparr>oldStart = Exact 1, oldLines = Exact 1, newStart = Exact 1, newLines = Exact 1, heading = [],
                 lines = [\<lparr>hunk_line.type = Add, content = ''a''\<rparr>,
                          \<lparr>hunk_line.type = Add, content = ''b''\<rparr>]\<rparr>,
                \<lparr>oldStart = Exact 1, oldLines = Exact 1, newStart = Exact 1, newLines = Exact 1, heading = [],
                 lines = [\<lparr>hunk_line.type = Add, content = ''a''\<rparr>,
                          \<lparr>hunk_line.type = Add, content = ''b''\<rparr>]\<rparr>],
       additions = 2, deletions = 0, isBinary = False\<rparr>]"
  by code_simp

text \<open>
  Claim C1 at the patch \<open>unmatched_header_patch\<close>: the code pushes the open hunk when it
  meets the \<open>@@\<close> line that does not match, keeps it as the current hunk, and pushes it
  again at the end.  The file has one addition, and its hunks hold two lines of type
  \<open>add\<close>.
\<close>

theorem unmatched_header_counts:
  "\<exists>p. parse (JSString unmatched_header_patch) = Inr p
       \<and> length (files p) = 1
       \<and> additions (files p ! 0) = 1
       \<and> count_lines Add (files p ! 0) = 2"
proof -
  have "unmatched_header_patch \<noteq> []"
    by (simp add: unmatched_header_patch_def)
  then obtain p where p: "parse (JSString unmatched_header_patch) = Inr p"
    using parse_nonempty by blast
  from parse_files [OF p] show ?thesis
    using p by (simp add: parseFiles_unmatched_header_patch count_lines_def)
qed

theorem unmatched_header_counts_witness:
  "\<exists>p. parse (JSString unmatched_header_patch) = Inr p
       \<and> additions (files p ! 0) \<noteq> count_lines Add (files p ! 0)"
  using unmatched_header_counts by auto

text \<open>
  Claim C5 at the patch \<open>unmatched_header_content_patch\<close>: the content line \<open>+b\<close> after
  the \<open>@@\<close> line that does not match is recorded in the previous hunk, which the file
  holds twice, and it is counted as an addition.
\<close>

theorem unmatched_header_content_kept:
  "\<exists>p. parse (JSString unmatched_header_content_patch) = Inr p
       \<and> length (files p) = 1
       \<and> map (\<lambda>h. map content (lines h)) (hunks (files p ! 0)) = [[''a'', ''b''], [''a'', ''b'']]
       \<and> file_diff.additions (files p ! 0) = 2"
proof -
  have "unmatched_header_content_patch \<noteq> []"
    by (simp add: unmatched_header_content_patch_def)
  then obtain p where p: "parse (JSString unmatched_header_content_patch) = Inr p"
    using parse_nonempty by blast
  from parse_files [OF p] show ?thesis
    using p by (simp add: parseFiles_unmatched_header_content_patch)
qed

theorem unmatched_header_content_kept_witness:
  "\<exists>p. parse (JSString unmatched_header_content_patch) = Inr p
       \<and> length (hunks (files p ! 0)) = 2
       \<and> file_diff.additions (files p ! 0) \<noteq> 1"
proof -
  from unmatched_header_content_kept obtain p where
    p: "parse (JSString unmatched_header_content_patch) = Inr p"
    and h: "map (\<lambda>h. map content (lines h)) (hunks (files p ! 0)) = [[''a'', ''b''], [''a'', ''b'']]"
    and a: "file_diff.additions (files p ! 0) = 2"
    by auto
  from h have "length (map (\<lambda>h. map content (lines h)) (hunks (files p ! 0))) = 2" by simp
  then have "length (hunks (files p ! 0)) = 2" by simp
  with p a show ?thesis by auto
qed

subsection \<open>The counters when every hunk header matches\<close>

text \<open>
  On an input whose lines starting with \<open>@@\<close> all match the hunk-header pattern, every
  hunk is pushed once, and the counters of every file agree with the lines of its hunks.
\<close>

lemma counts_inv_init: "counts_inv init_state"
  by (simp add: counts_inv_def init_state_def)

lemma counts_inv_update_file:
  assumes "counts_inv s" "currentFile s = Some f"
    and "\<And>x. hunks (g x) = hunks x \<and> file_diff.additions (g x) = file_diff.additions x
              \<and> file_diff.deletions (g x) = file_diff.deletions x"
  shows "counts_inv (update_file f g s)"
proof -
  have st: "hunkStore (update_file f g s) = hunkStore s"
    "currentFile (update_file f g s) = currentFile s"
    "currentHunk (update_file f g s) = currentHunk s"
    "parser_state.files (update_file f g s) = parser_state.files s"
    "length (fileStore (update_file f g s)) = length (fileStore s)"
    by (simp_all add: update_file_def)
  have fs: "hunks (fileStore (update_file f g s) ! a) = hunks (fileStore s ! a)
          \<and> file_diff.additions (fileStore (update_file f g s) ! a) = file_diff.additions (fileStore s ! a)
          \<and> file_diff.deletions (fileStore (update_file f g s) ! a) = file_diff.deletions (fileStore s ! a)"
    if "a < length (fileStore s)" for a
    using that assms(3) by (cases "a = f") (simp_all add: update_file_def)
  have sc: "saved_count t a (update_file f g s) = saved_count t a s" if "a < length (fileStore s)" for a t
    using fs [OF that] by (simp add: saved_count_def st)
  have oc: "open_count t a (update_file f g s) = open_count t a s" for a t
    by (simp add: open_count_def st split: option.splits)
  show ?thesis
    using assms(1) unfolding counts_inv_def st by (simp add: fs sc oc)
qed

lemma counts_inv_markers:
  assumes "counts_inv s"
  shows "counts_inv (on_new_file_mode l s)" "counts_inv (on_deleted_file_mode l s)"
    "counts_inv (on_rename_from l s)" "counts_inv (on_binary l s)"
  using assms
  by (simp_all add: on_new_file_mode_def on_deleted_file_mode_def on_rename_from_def
      on_binary_def counts_inv_update_file split: option.splits)

lemma counts_inv_close_hunk:
  assumes "counts_inv s" "currentFile s = Some f" "currentHunk s = Some h"
  shows "counts_inv ((push_hunk f h s)\<lparr>currentHunk := None\<rparr>)"
proof -
  let ?p = "push_hunk f h s"
  from assms have f: "f < length (fileStore s)" and h: "h < length (hunkStore s)"
    by (simp_all add: counts_inv_def)
  have st: "hunkStore ?p = hunkStore s" "currentFile ?p = currentFile s"
    "parser_state.files ?p = parser_state.files s"
    "length (fileStore ?p) = length (fileStore s)"
    by (simp_all add: push_hunk_def)
  have same: "fileStore ?p ! a = fileStore s ! a" if "a \<noteq> f" for a
    using that by (simp add: push_hunk_def)
  have at_f: "fileStore ?p ! f = (fileStore s ! f)\<lparr>hunks := hunks (fileStore s ! f) @ [h]\<rparr>"
    using f by (simp add: push_hunk_def)
  have goal: "(\<forall>k\<in>set (hunks (fileStore ?p ! a)). k < length (hunkStore s)) \<and>
          file_diff.additions (fileStore ?p ! a) =
            sum_list (map (\<lambda>k. type_count Add (hunkStore s ! k)) (hunks (fileStore ?p ! a))) \<and>
          file_diff.deletions (fileStore ?p ! a) =
            sum_list (map (\<lambda>k. type_count Del (hunkStore s ! k)) (hunks (fileStore ?p ! a)))"
    if a: "a < length (fileStore s)" for a
  proof -
    from assms(1) a have inv:
      "\<forall>k\<in>set (hunks (fileStore s ! a)). k < length (hunkStore s)"
      "file_diff.additions (fileStore s ! a) = saved_count Add a s + open_count Add a s"
      "file_diff.deletions (fileStore s ! a) = saved_count Del a s + open_count Del a s"
      by (simp_all add: counts_inv_def)
    show ?thesis
    proof (cases "a = f")
      case True
      with inv h assms(2,3) show ?thesis
        by (simp add: at_f saved_count_def open_count_def)
    next
      case False
      with inv assms(2) show ?thesis
        by (simp add: same saved_count_def open_count_def)
    qed
  qed
  have "f < length (fileStore s)" by (rule f)
  moreover have "\<forall>a\<in>set (parser_state.files s). a < length (fileStore s)"
    using assms(1) by (simp add: counts_inv_def)
  ultimately show ?thesis
    unfolding counts_inv_def using goal assms(2)
    by (simp add: st saved_count_def open_count_def)
qed

lemma counts_inv_files:
  assumes "counts_inv s" "a < length (fileStore s)"
  shows "counts_inv (s\<lparr>parser_state.files := parser_state.files s @ [a]\<rparr>)"
  using assms
  by (simp add: counts_inv_def saved_count_def open_count_def split: option.splits)

lemma counts_inv_new_hunk:
  assumes "counts_inv s" "currentFile s = Some f" "currentHunk s = None" "lines x = []"
  shows "counts_inv (s\<lparr>hunkStore := hunkStore s @ [x], currentHunk := Some (length (hunkStore s))\<rparr>)"
proof -
  have valid: "\<forall>k\<in>set (hunks (fileStore s ! a)). k < length (hunkStore s)"
    if "a < length (fileStore s)" for a
    using assms(1) that by (simp add: counts_inv_def)
  have sums: "sum_list (map (\<lambda>k. type_count t ((hunkStore s @ [x]) ! k)) (hunks (fileStore s ! a))) =
              sum_list (map (\<lambda>k. type_count t (hunkStore s ! k)) (hunks (fileStore s ! a)))"
    if "a < length (fileStore s)" for a t
    using valid [OF that] by (simp add: nth_append cong: map_cong)
  have counts: "file_diff.additions (fileStore s ! a) =
        sum_list (map (\<lambda>k. type_count Add (hunkStore s ! k)) (hunks (fileStore s ! a)))"
      "file_diff.deletions (fileStore s ! a) =
        sum_list (map (\<lambda>k. type_count Del (hunkStore s ! k)) (hunks (fileStore s ! a)))"
    if "a < length (fileStore s)" for a
    using assms(1,3) that by (simp_all add: counts_inv_def saved_count_def open_count_def)
  have fresh: "length (hunkStore s) \<notin> set (hunks (fileStore s ! a))"
    if "a < length (fileStore s)" for a
    using valid [OF that] by auto
  have wider: "k < Suc (length (hunkStore s))"
    if "a < length (fileStore s)" "k \<in> set (hunks (fileStore s ! a))" for a k
    using valid [OF that(1)] that(2) by auto
  have cur: "f < length (fileStore s)"
    and fl: "\<forall>a\<in>set (parser_state.files s). a < length (fileStore s)"
    using assms(1,2) by (simp_all add: counts_inv_def)
  have tc: "type_count t x = 0" for t
    using assms(4) by (simp add: type_count_def)
  show ?thesis
    unfolding counts_inv_def using assms(2) cur fl wider
    by (simp add: saved_count_def open_count_def sums counts fresh tc)
qed

lemma counts_inv_new_file:
  assumes "counts_inv s" "currentHunk s = None"
    and "hunks x = []" "file_diff.additions x = 0" "file_diff.deletions x = 0"
  shows "counts_inv (s\<lparr>fileStore := fileStore s @ [x], currentFile := Some (length (fileStore s))\<rparr>)"
proof -
  have goal: "(\<forall>k\<in>set (hunks ((fileStore s @ [x]) ! a)). k < length (hunkStore s)) \<and>
          file_diff.additions ((fileStore s @ [x]) ! a) =
            sum_list (map (\<lambda>k. type_count Add (hunkStore s ! k)) (hunks ((fileStore s @ [x]) ! a))) \<and>
          file_diff.deletions ((fileStore s @ [x]) ! a) =
            sum_list (map (\<lambda>k. type_count Del (hunkStore s ! k)) (hunks ((fileStore s @ [x]) ! a)))"
    if a: "a < Suc (length (fileStore s))" for a
  proof (cases "a < length (fileStore s)")
    case True
    with assms(1,2) show ?thesis
      by (simp add: nth_append counts_inv_def saved_count_def open_count_def)
  next
    case False
    with a have "a = length (fileStore s)" by simp
    with assms(3-5) show ?thesis
      by simp
  qed
  have fl: "\<forall>a\<in>set (parser_state.files s). a < Suc (length (fileStore s))"
    using assms(1) by (auto simp add: counts_inv_def)
  show ?thesis
    unfolding counts_inv_def using goal fl assms(2)
    by (simp add: saved_count_def open_count_def)
qed

lemma counts_inv_record_line:
  assumes inv: "counts_inv s" and cf: "currentFile s = Some f" and ch: "currentHunk s = Some h"
    and g: "\<And>x. hunks (g x) = hunks x
              \<and> file_diff.additions (g x) = file_diff.additions x + (if hunk_line.type l = Add then 1 else 0)
              \<and> file_diff.deletions (g x) = file_diff.deletions x + (if hunk_line.type l = Del then 1 else 0)"
  shows "counts_inv (update_file f g (push_line h l s))"
proof -
  let ?s' = "update_file f g (push_line h l s)"
  let ?H = "(hunkStore s)[h := (hunkStore s ! h)\<lparr>lines := lines (hunkStore s ! h) @ [l]\<rparr>]"
  from inv cf ch have f: "f < length (fileStore s)" and h: "h < length (hunkStore s)"
    and nin: "\<And>a. a < length (fileStore s) \<Longrightarrow> h \<notin> set (hunks (fileStore s ! a))"
    and fl: "\<forall>a\<in>set (parser_state.files s). a < length (fileStore s)"
    by (simp_all add: counts_inv_def)
  have st: "hunkStore ?s' = ?H" "currentFile ?s' = Some f" "currentHunk ?s' = Some h"
    "parser_state.files ?s' = parser_state.files s"
    "length (fileStore ?s') = length (fileStore s)"
    using cf ch by (simp_all add: update_file_def push_line_def)
  have lenH: "length ?H = length (hunkStore s)" by simp
  have at_h: "type_count t (?H ! h) = type_count t (hunkStore s ! h) + (if hunk_line.type l = t then 1 else 0)" for t
    using h by (simp add: type_count_def)
  have other: "?H ! k = hunkStore s ! k" if "k \<noteq> h" for k
    using that by simp
  have file_at: "fileStore ?s' ! a = (if a = f then g (fileStore s ! f) else fileStore s ! a)"
    if "a < length (fileStore s)" for a
    using that by (simp add: update_file_def push_line_def)
  have hunks_same: "hunks (fileStore ?s' ! a) = hunks (fileStore s ! a)"
    if "a < length (fileStore s)" for a
    using that g by (simp add: file_at)
  have sums: "sum_list (map (\<lambda>k. type_count t (?H ! k)) (hunks (fileStore s ! a))) =
              sum_list (map (\<lambda>k. type_count t (hunkStore s ! k)) (hunks (fileStore s ! a)))"
    if "a < length (fileStore s)" for a t
  proof -
    have "\<forall>k\<in>set (hunks (fileStore s ! a)). k \<noteq> h"
      using nin [OF that] by auto
    then show ?thesis
      by (intro arg_cong [where f = sum_list] map_cong refl) (simp add: other)
  qed
  have goal: "(\<forall>k\<in>set (hunks (fileStore ?s' ! a)). k < length (hunkStore s)) \<and>
          file_diff.additions (fileStore ?s' ! a) = saved_count Add a ?s' + open_count Add a ?s' \<and>
          file_diff.deletions (fileStore ?s' ! a) = saved_count Del a ?s' + open_count Del a ?s'"
    if a: "a < length (fileStore s)" for a
  proof -
    from inv a have old:
      "\<forall>k\<in>set (hunks (fileStore s ! a)). k < length (hunkStore s)"
      "file_diff.additions (fileStore s ! a) = saved_count Add a s + open_count Add a s"
      "file_diff.deletions (fileStore s ! a) = saved_count Del a s + open_count Del a s"
      by (simp_all add: counts_inv_def)
    have sc: "saved_count t a ?s' = saved_count t a s" for t
      unfolding saved_count_def st hunks_same [OF a] by (rule sums [OF a])
    have oc_f: "open_count t f ?s' = open_count t f s + (if hunk_line.type l = t then 1 else 0)" for t
      unfolding open_count_def st using cf ch by (simp add: at_h)
    have oc_other: "open_count t a ?s' = 0 \<and> open_count t a s = 0" if "a \<noteq> f" for t
      unfolding open_count_def st using cf that by simp
    show ?thesis
    proof (cases "a = f")
      case True
      from old g have
        "\<forall>k\<in>set (hunks (fileStore ?s' ! a)). k < length (hunkStore s)"
        by (simp add: hunks_same [OF a])
      moreover have "file_diff.additions (fileStore ?s' ! f) = saved_count Add f ?s' + open_count Add f ?s'"
        using old(2) g f unfolding True by (simp add: sc [unfolded True] oc_f file_at)
      moreover have "file_diff.deletions (fileStore ?s' ! f) = saved_count Del f ?s' + open_count Del f ?s'"
        using old(3) g f unfolding True by (simp add: sc [unfolded True] oc_f file_at)
      ultimately show ?thesis using True by simp
    next
      case False
      with old oc_other show ?thesis
        by (simp add: hunks_same [OF a] sc file_at [OF a])
    qed
  qed
  have fresh: "h \<notin> set (hunks (fileStore ?s' ! a))" if "a < length (fileStore s)" for a
    using nin [OF that] by (simp add: hunks_same [OF that])
  show ?thesis
    unfolding counts_inv_def st lenH using goal fresh f h fl
    by simp
qed

lemma update_file_id:
  assumes "f < length (fileStore s)"
  shows "update_file f (\<lambda>x. x) s = s"
  using assms by (simp add: update_file_def)

lemma counts_inv_on_content:
  assumes "counts_inv s"
  shows "counts_inv (on_content l s)"
proof (cases "currentHunk s")
  case None
  with assms show ?thesis by (simp add: on_content_def)
next
  case (Some h)
  with assms obtain f where f: "currentFile s = Some f"
    by (auto simp add: counts_inv_def)
  with assms have fl: "f < length (fileStore s)"
    by (simp add: counts_inv_def)
  have add: "counts_inv (update_file f (\<lambda>x. x\<lparr>file_diff.additions := file_diff.additions x + 1\<rparr>)
                (push_line h \<lparr>hunk_line.type = Add, content = c\<rparr> s))" for c
    using assms f Some by (rule counts_inv_record_line) simp
  have del: "counts_inv (update_file f (\<lambda>x. x\<lparr>file_diff.deletions := file_diff.deletions x + 1\<rparr>)
                (push_line h \<lparr>hunk_line.type = Del, content = c\<rparr> s))" for c
    using assms f Some by (rule counts_inv_record_line) simp
  have "counts_inv (update_file f (\<lambda>x. x) (push_line h \<lparr>hunk_line.type = Context, content = c\<rparr> s))" for c
    using assms f Some by (rule counts_inv_record_line) simp
  moreover have "f < length (fileStore (push_line h x s))" for x
    using fl by (simp add: push_line_def)
  ultimately have ctx: "counts_inv (push_line h \<lparr>hunk_line.type = Context, content = c\<rparr> s)" for c
    by (simp add: update_file_id)
  show ?thesis
    using assms Some f add del ctx by (simp add: on_content_def)
qed

lemma counts_inv_on_hunk_header:
  assumes "counts_inv s" "prefix ''@@'' l \<longrightarrow> match_hunk_header l \<noteq> None"
  shows "counts_inv (on_hunk_header l s)"
proof (cases "currentFile s")
  case None
  with assms show ?thesis by (simp add: on_hunk_header_def)
next
  case (Some f)
  show ?thesis
  proof (cases "prefix ''@@'' l")
    case False
    with assms Some show ?thesis by (simp add: on_hunk_header_def)
  next
    case True
    with assms(2) obtain a b c d e where m: "match_hunk_header l = Some (a, b, c, d, e)"
      by (cases "match_hunk_header l") auto
    define x where "x = \<lparr>oldStart = parseInt a, oldLines = (if b \<noteq> [] then parseInt b else Exact 1),
        newStart = parseInt c, newLines = (if d \<noteq> [] then parseInt d else Exact 1),
        heading = trim e, lines = []\<rparr>"
    have x: "lines x = []" by (simp add: x_def)
    show ?thesis
    proof (cases "currentHunk s")
      case None
      have "on_hunk_header l s = s\<lparr>hunkStore := hunkStore s @ [x], currentHunk := Some (length (hunkStore s))\<rparr>"
        using Some True m None by (simp add: on_hunk_header_def x_def Let_def)
      with counts_inv_new_hunk [OF assms(1) Some None x] show ?thesis by simp
    next
      case (Some h)
      let ?s1 = "(push_hunk f h s)\<lparr>currentHunk := None\<rparr>"
      have s1: "counts_inv ?s1"
        using assms(1) \<open>currentFile s = Some f\<close> Some by (rule counts_inv_close_hunk)
      have cf: "currentFile ?s1 = Some f" and ch: "currentHunk ?s1 = None"
        using \<open>currentFile s = Some f\<close> by (simp_all add: push_hunk_def)
      have "on_hunk_header l s = ?s1\<lparr>hunkStore := hunkStore ?s1 @ [x], currentHunk := Some (length (hunkStore ?s1))\<rparr>"
        using \<open>currentFile s = Some f\<close> True m Some by (simp add: on_hunk_header_def x_def Let_def)
      with counts_inv_new_hunk [OF s1 cf ch x] show ?thesis by simp
    qed
  qed
qed

lemma counts_inv_save_previous_file:
  assumes "counts_inv s"
  shows "counts_inv (save_previous_file s) \<and> currentHunk (save_previous_file s) = None"
proof (cases "currentFile s")
  case None
  with assms show ?thesis by (simp add: save_previous_file_def counts_inv_def)
next
  case (Some f)
  with assms have f: "f < length (fileStore s)" by (simp add: counts_inv_def)
  show ?thesis
  proof (cases "currentHunk s")
    case None
    with Some counts_inv_files [OF assms f] show ?thesis
      by (simp add: save_previous_file_def)
  next
    case (Some h)
    let ?s1 = "(push_hunk f h s)\<lparr>currentHunk := None\<rparr>"
    have s1: "counts_inv ?s1"
      using assms \<open>currentFile s = Some f\<close> Some by (rule counts_inv_close_hunk)
    have "f < length (fileStore ?s1)"
      using f by (simp add: push_hunk_def)
    from counts_inv_files [OF s1 this] \<open>currentFile s = Some f\<close> Some show ?thesis
      by (simp add: save_previous_file_def)
  qed
qed

lemma counts_inv_on_file_header:
  assumes "counts_inv s"
  shows "counts_inv (on_file_header l s)"
proof (cases "prefix ''diff --git '' l")
  case False
  with assms show ?thesis by (simp add: on_file_header_def)
next
  case True
  let ?s1 = "save_previous_file s"
  from counts_inv_save_previous_file [OF assms]
  have s1: "counts_inv ?s1" "currentHunk ?s1 = None" by simp_all
  show ?thesis
  proof (cases "match_diff_header l")
    case None
    with True s1 show ?thesis by (simp add: on_file_header_def)
  next
    case (Some ab)
    obtain a b where ab: "ab = (a, b)" by (cases ab)
    have "counts_inv (?s1\<lparr>fileStore := fileStore ?s1 @
            [\<lparr>oldPath = a, newPath = b, type = Modified, hunks = [],
              additions = 0, deletions = 0, isBinary = False\<rparr>],
            currentFile := Some (length (fileStore ?s1))\<rparr>)"
      using s1 by (rule counts_inv_new_file) simp_all
    with True Some ab show ?thesis by (simp add: on_file_header_def Let_def)
  qed
qed

lemma counts_inv_step:
  assumes "counts_inv s" "prefix ''@@'' l \<longrightarrow> match_hunk_header l \<noteq> None"
  shows "counts_inv (step l s)"
  using assms
  by (simp add: step_def counts_inv_on_file_header counts_inv_markers counts_inv_on_hunk_header
      counts_inv_on_content)

lemma counts_inv_fold:
  assumes "counts_inv s" "\<forall>l\<in>set ls. prefix ''@@'' l \<longrightarrow> match_hunk_header l \<noteq> None"
  shows "counts_inv (fold step ls s)"
  using assms by (induction ls arbitrary: s) (simp_all add: counts_inv_step)

lemma save_last_file_reads:
  "read_file (save_last_file s) = read_file (save_previous_file s)"
  "parser_state.files (save_last_file s) = parser_state.files (save_previous_file s)"
  by (auto simp add: save_last_file_def save_previous_file_def read_file_def push_hunk_def Let_def
      fun_eq_iff split: option.splits)

lemma count_lines_read_file:
  "count_lines t (read_file s a) = saved_count t a s"
  by (simp add: count_lines_def read_file_def saved_count_def type_count_def Let_def comp_def)

lemma counts_consistent_when_headers_match:
  assumes "\<forall>l\<in>set ls. prefix ''@@'' l \<longrightarrow> match_hunk_header l \<noteq> None"
  shows "\<forall>f\<in>set (parseFiles ls).
           file_diff.additions f = count_lines Add f \<and> file_diff.deletions f = count_lines Del f"
proof -
  define s where "s = save_previous_file (fold step ls init_state)"
  have "counts_inv (fold step ls init_state)"
    using counts_inv_init assms by (rule counts_inv_fold)
  from counts_inv_save_previous_file [OF this]
  have inv: "counts_inv s" and ch: "currentHunk s = None"
    by (simp_all add: s_def)
  have pf: "parseFiles ls = map (read_file s) (parser_state.files s)"
    by (simp add: parseFiles_def Let_def save_last_file_reads s_def)
  have "file_diff.additions (read_file s a) = count_lines Add (read_file s a)
      \<and> file_diff.deletions (read_file s a) = count_lines Del (read_file s a)"
    if "a \<in> set (parser_state.files s)" for a
  proof -
    from inv that have a: "a < length (fileStore s)"
      by (simp add: counts_inv_def)
    with inv ch have
      "file_diff.additions (fileStore s ! a) = saved_count Add a s"
      "file_diff.deletions (fileStore s ! a) = saved_count Del a s"
      by (simp_all add: counts_inv_def open_count_def)
    then show ?thesis
      by (simp add: count_lines_read_file) (simp add: read_file_def Let_def)
  qed
  then show ?thesis
    by (simp add: pf)
qed

subsection \<open>Binary files\<close>





lemma on_file_header_other:
  assumes "\<not> prefix ''diff --git '' l"
  shows "on_file_header l s = s"
  using assms by (simp add: on_file_header_def)



















































section \<open>Properties of isValidPatch\<close>

text \<open>
  Claim C9.  On \<open>undefined\<close>, \<open>null\<close>, the empty string and every value that is not a
  string, \<open>isValidPatch\<close> answers false (it has no way to raise), where \<open>parse\<close> raises
  \<open>InvalidInput\<close>.
\<close>

theorem isValidPatch_absent:
  assumes "v = JSUndefined \<or> v = JSNull \<or> v = JSString [] \<or> v = JSOther b"
  shows "isValidPatch v = False \<and> parse v = Inl InvalidInput"
  using assms by (auto simp add: isValidPatch_def parse_def)

theorem isValidPatch_absent_witness:
  "isValidPatch (JSOther True) = False \<and> parse (JSOther True) = Inl InvalidInput"
  using isValidPatch_absent [of "JSOther True" True] by simp

lemma text_lines_not_Nil: "text_lines s \<noteq> []"
  by (induction s) (auto split: list.splits)

lemma hd_text_lines: "hd (text_lines s) = takeWhile (\<lambda>c. \<not> isLineTerminator c) s"
  by (induction s) (auto split: list.splits simp add: text_lines_not_Nil)

lemma prefix_takeWhile_iff:
  assumes "\<forall>c\<in>set p. P c"
  shows "prefix p (takeWhile P s) \<longleftrightarrow> prefix p s"
  using assms
proof (induction s arbitrary: p)
  case Nil
  then show ?case by simp
next
  case (Cons a s)
  show ?case
  proof (cases p)
    case Nil
    then show ?thesis by simp
  next
    case (Cons b q)
    with Cons.prems have "P b" "\<forall>c\<in>set q. P c" by auto
    with Cons.IH [of q] Cons show ?thesis by auto
  qed
qed

lemma test_line_start_lines:
  assumes "\<forall>c\<in>set lit. \<not> isLineTerminator c"
  shows "test_line_start lit b s \<longleftrightarrow>
           (b \<and> prefix lit (hd (text_lines s))) \<or> (\<exists>l\<in>set (tl (text_lines s)). prefix lit l)"
proof (induction s arbitrary: b)
  case Nil
  then show ?case by simp
next
  case (Cons c cs)
  have set_eq: "set (text_lines cs) = insert (hd (text_lines cs)) (set (tl (text_lines cs)))"
    using text_lines_not_Nil [of cs] by (cases "text_lines cs") auto
  show ?case
  proof (cases "isLineTerminator c")
    case True
    have "prefix lit (c # cs) \<longleftrightarrow> lit = []"
      using assms True by (cases lit) auto
    with True Cons.IH [of True] set_eq show ?thesis
      by auto
  next
    case False
    have "prefix lit (c # cs) \<longleftrightarrow> prefix lit (c # hd (text_lines cs))"
    proof (cases lit)
      case Nil
      then show ?thesis by simp
    next
      case (Cons b q)
      with assms have "\<forall>x\<in>set q. \<not> isLineTerminator x" by simp
      from prefix_takeWhile_iff [OF this, of cs] Cons show ?thesis
        by (simp add: hd_text_lines)
    qed
    with False Cons.IH [of False] text_lines_not_Nil [of cs] show ?thesis
      by (cases "text_lines cs") auto
  qed
qed

lemma test_line_start_True:
  assumes "\<forall>c\<in>set lit. \<not> isLineTerminator c"
  shows "test_line_start lit True s \<longleftrightarrow> (\<exists>l\<in>set (text_lines s). prefix lit l)"
  using test_line_start_lines [OF assms, of True s] text_lines_not_Nil [of s]
  by (cases "text_lines s") auto

text \<open>
  Claim C8, as stated: \<open>isValidPatch\<close> would accept a text with a line starting with
  \<open>---\<close>.  The text \<open>---\<close> is such a line and is refused: the patterns for
  \<open>---\<close> and \<open>+++\<close> ask for a space after the three characters.
\<close>

theorem isValidPatch_dashes_counterexample:
  "\<not> (isValidPatch (JSString ''---'') \<longleftrightarrow>
        (\<exists>l\<in>set (split CHR 0x0A ''---'').
           prefix ''diff --git'' l \<or> prefix ''---'' l \<or> prefix ''+++'' l \<or> prefix ''@@ '' l))"
  by (simp add: isValidPatch_def indicators_def isLineTerminator_def)

text \<open>
  Claim C8, amended: on a string, \<open>isValidPatch\<close> is true exactly when a line of the
  text, the lines being what the line terminators separate, starts with \<open>diff --git\<close>,
  with \<open>---\<close> and a space, with \<open>+++\<close> and a space, or with \<open>@@\<close> and a space; it is
  false on \<open>random text\<close> and true on \<open>@@ -1 +1 @@\<close>.
\<close>

theorem isValidPatch_iff:
  "(isValidPatch (JSString text) \<longleftrightarrow>
      (\<exists>l\<in>set (text_lines text).
          prefix ''diff --git'' l \<or> prefix ''--- '' l \<or> prefix ''+++ '' l \<or> prefix ''@@ '' l))
   \<and> isValidPatch (JSString ''random text'') = False
   \<and> isValidPatch (JSString ''@@ -1 +1 @@'') = True"
proof -
  have a: "test_line_start ''diff --git'' True text \<longleftrightarrow> (\<exists>l\<in>set (text_lines text). prefix ''diff --git'' l)"
    by (rule test_line_start_True) (simp add: isLineTerminator_def)
  have b: "test_line_start ''--- '' True text \<longleftrightarrow> (\<exists>l\<in>set (text_lines text). prefix ''--- '' l)"
    by (rule test_line_start_True) (simp add: isLineTerminator_def)
  have c: "test_line_start ''+++ '' True text \<longleftrightarrow> (\<exists>l\<in>set (text_lines text). prefix ''+++ '' l)"
    by (rule test_line_start_True) (simp add: isLineTerminator_def)
  have d: "test_line_start ''@@ '' True text \<longleftrightarrow> (\<exists>l\<in>set (text_lines text). prefix ''@@ '' l)"
    by (rule test_line_start_True) (simp add: isLineTerminator_def)
  have e: "text = [] \<Longrightarrow> \<not> (\<exists>l\<in>set (text_lines text).
          prefix ''diff --git'' l \<or> prefix ''--- '' l \<or> prefix ''+++ '' l \<or> prefix ''@@ '' l)"
    by simp
  have "isValidPatch (JSString text) \<longleftrightarrow>
      (\<exists>l\<in>set (text_lines text).
          prefix ''diff --git'' l \<or> prefix ''--- '' l \<or> prefix ''+++ '' l \<or> prefix ''@@ '' l)"
  proof (cases "text = []")
    case True
    with e show ?thesis by (simp add: isValidPatch_def)
  next
    case False
    then show ?thesis
      unfolding isValidPatch_def indicators_def using a b c d by auto
  qed
  moreover have "isValidPatch (JSString ''random text'') = False"
    by (simp add: isValidPatch_def indicators_def isLineTerminator_def)
  moreover have "isValidPatch (JSString ''@@ -1 +1 @@'') = True"
    by (simp add: isValidPatch_def indicators_def isLineTerminator_def)
  ultimately show ?thesis by blast
qed

theorem isValidPatch_iff_witness:
  "isValidPatch (JSString (''a'' @ [CHR 0x0D] @ ''--- b'')) \<and> isValidPatch (JSString ''+++ b/f'') \<and> \<not> isValidPatch (JSString ''+++'')"
  using isValidPatch_iff [of "''a'' @ [CHR 0x0D] @ ''--- b''"] isValidPatch_iff [of "''+++ b/f''"]  isValidPatch_iff [of "''+++''"]
  by (simp add: isLineTerminator_def)

section \<open>Properties of detectLanguage\<close>

lemma of_char_lower: "isUpper c \<Longrightarrow> (of_char (lower_char c) :: nat) = of_char c + 32"
  by (auto simp add: lower_char_def isUpper_def)

lemma lower_char_idem: "lower_char (lower_char c) = lower_char c"
proof (cases "isUpper c")
  case True
  then have "\<not> isUpper (lower_char c)"
    using of_char_lower [OF True] by (auto simp add: isUpper_def)
  then show ?thesis by (simp add: lower_char_def)
next
  case False
  then show ?thesis by (simp add: lower_char_def)
qed

lemma lower_char_dot [simp]: "lower_char c = CHR ''.'' \<longleftrightarrow> c = CHR ''.''"
proof (cases "isUpper c")
  case True
  from of_char_lower [OF True] True have "(of_char (lower_char c) :: nat) \<noteq> of_char CHR ''.''"
    by (auto simp add: isUpper_def)
  moreover from True have "c \<noteq> CHR ''.''" by (auto simp add: isUpper_def)
  ultimately show ?thesis by auto
next
  case False
  then show ?thesis by (simp add: lower_char_def)
qed

lemma lower_char_slash [simp]: "lower_char c = CHR ''/'' \<longleftrightarrow> c = CHR ''/''"
proof (cases "isUpper c")
  case True
  from of_char_lower [OF True] True have "(of_char (lower_char c) :: nat) \<noteq> of_char CHR ''/''"
    by (auto simp add: isUpper_def)
  moreover from True have "c \<noteq> CHR ''/''" by (auto simp add: isUpper_def)
  ultimately show ?thesis by auto
next
  case False
  then show ?thesis by (simp add: lower_char_def)
qed

lemma dot_lower_char [simp]: "CHR ''.'' = lower_char c \<longleftrightarrow> c = CHR ''.''"
  by (metis lower_char_dot)

lemma lower_char_dot_self [simp]: "lower_char CHR ''.'' = CHR ''.''"
  by (simp add: lower_char_def isUpper_def)

lemma slash_lower_char [simp]: "CHR ''/'' = lower_char c \<longleftrightarrow> c = CHR ''/''"
  by (metis lower_char_slash)

lemma dot_in_lower [simp]: "CHR ''.'' \<in> set (map lower_char s) \<longleftrightarrow> CHR ''.'' \<in> set s"
  by (induction s) auto

lemma match_extension_lower:
  "match_extension (toLowerCase s) = map_option toLowerCase (match_extension s)"
  unfolding toLowerCase_def
  by (induction s) auto

lemma getFileExtension_lower:
  "toLowerCase (getFileExtension s) = getFileExtension (toLowerCase s)"
  by (simp add: getFileExtension_def match_extension_lower split: option.splits)
     (simp add: toLowerCase_def)

lemma split_not_Nil: "split sep s \<noteq> []"
  by (induction s) (auto split: list.splits)

lemma split_slash_lower:
  "split CHR ''/'' (map lower_char s) = map (map lower_char) (split CHR ''/'' s)"
  by (induction s) (auto split: list.splits simp add: split_not_Nil)

lemma filename_lower:
  "toLowerCase (last (split CHR ''/'' s)) = last (split CHR ''/'' (toLowerCase s))"
  unfolding toLowerCase_def
  by (simp add: split_slash_lower last_map split_not_Nil)

lemma toLowerCase_idem: "toLowerCase (toLowerCase s) = toLowerCase s"
  by (simp add: toLowerCase_def lower_char_idem)

lemma detectLanguage_lower: "detectLanguage (toLowerCase s) = detectLanguage s"
  unfolding detectLanguage_def
  by (simp add: getFileExtension_lower filename_lower toLowerCase_idem)

lemma detectLanguage_same_lower:
  "toLowerCase p = toLowerCase q \<Longrightarrow> detectLanguage p = detectLanguage q"
  by (metis detectLanguage_lower)

text \<open>
  Claim C10, as stated: changing the letter case of the characters after the last dot
  would never change the result.  Upper-casing the extension of \<open>a.c\<close> followed by
  U+00DF gives \<open>a.CSS\<close>: the first path has no known extension, the second is a style
  sheet.
\<close>

theorem detectLanguage_upper_case_counterexample:
  "toUpperCase (''c'' @ [CHR 0xDF]) = Some ''CSS''
   \<and> detectLanguage (''a.c'' @ [CHR 0xDF]) = Language ''plaintext''
   \<and> detectLanguage ''a.CSS'' = Language ''css''
   \<and> detectLanguage (''a.c'' @ [CHR 0xDF]) \<noteq> detectLanguage ''a.CSS''"
  by code_simp

text \<open>
  Claim C10, amended: \<open>detectLanguage\<close> depends on the path only through its lower-case
  form.  Two paths with the same \<open>toLowerCase\<close> get the same result, a path and its
  lower-case form in particular; \<open>a.PY\<close> and \<open>a.py\<close> both give \<open>python\<close>.
\<close>

theorem detectLanguage_lower_case_form:
  "(toLowerCase p = toLowerCase q \<longrightarrow> detectLanguage p = detectLanguage q)
   \<and> detectLanguage (toLowerCase p) = detectLanguage p
   \<and> detectLanguage ''a.PY'' = Language ''python''
   \<and> detectLanguage ''a.py'' = Language ''python''"
proof -
  have "detectLanguage p = detectLanguage q" if "toLowerCase p = toLowerCase q"
    using that by (rule detectLanguage_same_lower)
  moreover have "detectLanguage (toLowerCase p) = detectLanguage p"
    by (rule detectLanguage_lower)
  moreover have "detectLanguage ''a.PY'' = Language ''python''"
    by code_simp
  moreover have "detectLanguage ''a.py'' = Language ''python''"
    by code_simp
  ultimately show ?thesis by blast
qed

theorem detectLanguage_lower_case_form_witness:
  "toLowerCase ''src/App.Tsx'' = toLowerCase ''src/App.tSX''
   \<and> detectLanguage ''src/App.Tsx'' = Language ''tsx''
   \<and> detectLanguage ''src/App.tSX'' = Language ''tsx''"
proof -
  have h: "toLowerCase ''src/App.Tsx'' = toLowerCase ''src/App.tSX''"
    by code_simp
  have v: "detectLanguage ''src/App.Tsx'' = Language ''tsx''"
    by code_simp
  from detectLanguage_lower_case_form [of "''src/App.Tsx''" "''src/App.tSX''"] h v show ?thesis
    by simp
qed

section \<open>Properties of formatRelativeTime\<close>

lemma formatRelativeTime_NaN:
  assumes "dateParse dateString = None" "dateString \<noteq> []"
  shows "formatRelativeTime dateParse now dateString = ''NaN years ago''"
  using assms
  by (simp add: formatRelativeTime_def minus_number_def floor_div_def less_number_def ago_def
      not_one_def number_to_string_def)

text \<open>
  Claim C6 at a string that is no date: the time value is \<open>NaN\<close>, no comparison holds,
  and the last template is returned with \<open>NaN\<close> in it, not the input.
\<close>

theorem formatRelativeTime_invalid_date:
  assumes "dateParse dateString = None" "dateString \<noteq> []"
  shows "formatRelativeTime dateParse now dateString = ''NaN years ago''"
  using assms by (rule formatRelativeTime_NaN)

theorem formatRelativeTime_invalid_date_witness:
  "formatRelativeTime (\<lambda>s. None) 0 ''not a date'' = ''NaN years ago''
   \<and> formatRelativeTime (\<lambda>s. None) 0 ''not a date'' \<noteq> ''not a date''"
  using formatRelativeTime_invalid_date [of "\<lambda>s. None" "''not a date''" 0] by simp

end
